theory Spec2Isabelle
  imports Main
begin

section \<open>numify: locale table and format resolution\<close>

text \<open>
  The TypeScript source (\<^verbatim>\<open>numify\<close>, \<^verbatim>\<open>formatNumber\<close>, \<^verbatim>\<open>getFormat\<close>, and the
  earlier option-less \<^verbatim>\<open>numify\<close>) is embedded function by function. A \<^verbatim>\<open>FormatType\<close>
  reaches the code as a JavaScript string or as \<^verbatim>\<open>undefined\<close>; it is modelled as a
  \<open>string option\<close>, \<open>None\<close> being \<^verbatim>\<open>undefined\<close>.
\<close>

datatype SystemType = international | indian

record NumberFormat =
  decimal :: string
  thousand :: string
  system :: SystemType

text \<open>The table \<^verbatim>\<open>FORMAT_LOCALES\<close>, with its eight own keys in source order.\<close>

definition FORMAT_LOCALES :: "string \<rightharpoonup> NumberFormat" where
  "FORMAT_LOCALES = map_of
     [(''en'', \<lparr>decimal = ''.'', thousand = '','', system = international\<rparr>),
      (''de'', \<lparr>decimal = '','', thousand = ''.'', system = international\<rparr>),
      (''fr'', \<lparr>decimal = '','', thousand = '' '', system = international\<rparr>),
      (''es'', \<lparr>decimal = '','', thousand = ''.'', system = international\<rparr>),
      (''in'', \<lparr>decimal = ''.'', thousand = '','', system = indian\<rparr>),
      (''it'', \<lparr>decimal = '','', thousand = ''.'', system = international\<rparr>),
      (''ch'', \<lparr>decimal = ''.'', thousand = [CHR 0x27], system = international\<rparr>),
      (''se'', \<lparr>decimal = '','', thousand = '' '', system = international\<rparr>)]"

definition locale_en :: NumberFormat where
  "locale_en = \<lparr>decimal = ''.'', thousand = '','', system = international\<rparr>"

text \<open>
  \<^verbatim>\<open>getFormat\<close>: a falsy argument (\<^verbatim>\<open>undefined\<close> or the empty string) gives the English
  entry; the two system names give a fresh record; otherwise the table is consulted and a
  missing key falls back to the English entry.
\<close>

definition getFormat :: "string option \<Rightarrow> NumberFormat" where
  "getFormat format =
     (case format of
        None \<Rightarrow> the (FORMAT_LOCALES ''en'')
      | Some f \<Rightarrow>
          if f = [] then the (FORMAT_LOCALES ''en'')
          else if f = ''international'' then
            \<lparr>decimal = ''.'', thousand = '','', system = international\<rparr>
          else if f = ''indian'' then
            \<lparr>decimal = ''.'', thousand = '','', system = indian\<rparr>
          else (case FORMAT_LOCALES f of
                  Some c \<Rightarrow> c
                | None \<Rightarrow> the (FORMAT_LOCALES ''en'')))"

section \<open>Characters, digits and decimal numerals\<close>

text \<open>
  \<open>is_digit\<close> is the regular-expression class \<^verbatim>\<open>[0-9]\<close> (\<^verbatim>\<open>\d\<close>), \<open>is_word\<close> the class
  \<^verbatim>\<open>\w\<close> that decides the word boundaries \<^verbatim>\<open>\b\<close> and \<^verbatim>\<open>\B\<close>.
\<close>

definition is_digit :: "char \<Rightarrow> bool" where
  "is_digit c = (48 \<le> (of_char c :: nat) \<and> (of_char c :: nat) \<le> 57)"

definition is_word :: "char \<Rightarrow> bool" where
  "is_word c = (let n = (of_char c :: nat) in
      (48 \<le> n \<and> n \<le> 57) \<or> (65 \<le> n \<and> n \<le> 90) \<or> n = 95 \<or> (97 \<le> n \<and> n \<le> 122))"

definition digit_char :: "nat \<Rightarrow> char" where
  "digit_char d = ''0123456789'' ! d"

definition digit_val :: "char \<Rightarrow> nat" where
  "digit_val c = of_char c - 48"

fun digits_of :: "nat \<Rightarrow> string" where
  "digits_of n = (if n < 10 then [digit_char n] else digits_of (n div 10) @ [digit_char (n mod 10)])"

declare digits_of.simps [simp del]

definition nat_of_digits :: "string \<Rightarrow> nat" where
  "nat_of_digits ds = foldl (\<lambda>a c. 10 * a + digit_val c) 0 ds"

section \<open>JavaScript numbers\<close>

text \<open>
  A JavaScript number is \<^verbatim>\<open>NaN\<close>, an infinity, or a finite value. A finite value is
  represented by the decimal numeral that \<^verbatim>\<open>Number.prototype.toString\<close> prints for it:
  \<open>Finite neg m e\<close> stands for the double nearest to \<open>(-1)\<^sup>n\<^sup>e\<^sup>g \<times> m \<times> 10\<^sup>e\<close>, so
  \<open>Finite False 123456789 (- 2)\<close> is \<^verbatim>\<open>1234567.89\<close>, and \<open>Finite True 0 0\<close> is \<^verbatim>\<open>-0\<close>.

  \<^item> \<open>toString\<close> follows the ECMAScript algorithm \<^verbatim>\<open>Number::toString\<close> on the digits of
    the numeral: plain notation while the decimal point position \<open>n\<close> satisfies
    \<open>-6 < n \<le> 21\<close>, exponent notation otherwise.
  \<^item> \<open>Number\<close> follows \<^verbatim>\<open>StringToNumber\<close> for decimal literals: the empty string is
    \<open>0\<close>, an optional sign, \<^verbatim>\<open>Infinity\<close>, digits with an optional fraction and an
    optional exponent; everything else is \<open>NaN\<close>. (White space and the \<^verbatim>\<open>0x\<close>,
    \<^verbatim>\<open>0o\<close>, \<^verbatim>\<open>0b\<close> literals do not occur in the strings this program parses.)
  \<^item> Comparison with a threshold \<open>1000\<close> or \<open>10\<^sup>k\<close> is decided on the decimal; for the
    numeral of a double this is the comparison of the double, because the thresholds are
    doubles themselves.
  \<^item> Division by a threshold \<open>10\<^sup>k\<close> moves the decimal point.
  \<^item> \<open>toFixed2\<close> is \<^verbatim>\<open>toFixed(2)\<close>: it takes the binary value \<open>fl53\<close> of the numeral
    (round to nearest, ties to even, 53 significant bits) and prints the integer \<open>n\<close>
    for which \<open>n / 100\<close> is nearest to that binary value, the larger one on a tie. So
    \<^verbatim>\<open>(1005 / 1000).toFixed(2)\<close> is \<^verbatim>\<open>1.00\<close> as in JavaScript, since the double below
    \<open>1.005\<close> is the nearest one.
\<close>

datatype jsnum = NaN | Infinity bool | Finite bool nat int

function strip10 :: "nat \<Rightarrow> int \<Rightarrow> nat \<times> int" where
  "strip10 m e = (if m \<noteq> 0 \<and> m mod 10 = 0 then strip10 (m div 10) (e + 1) else (m, e))"
  by pat_completeness auto
termination
  by (relation "measure (\<lambda>(m, e). m)") auto

declare strip10.simps [simp del]

definition exponent_str :: "int \<Rightarrow> string" where
  "exponent_str x = CHR ''e'' # (if 0 \<le> x then CHR ''+'' else CHR ''-'') # digits_of (nat \<bar>x\<bar>)"

definition toString_digits :: "string \<Rightarrow> int \<Rightarrow> string" where
  "toString_digits ds n =
     (let k = int (length ds) in
      if k \<le> n \<and> n \<le> 21 then ds @ replicate (nat (n - k)) CHR ''0''
      else if 0 < n \<and> n \<le> 21 then take (nat n) ds @ CHR ''.'' # drop (nat n) ds
      else if - 6 < n \<and> n \<le> 0 then ''0.'' @ replicate (nat (- n)) CHR ''0'' @ ds
      else if k = 1 then ds @ exponent_str (n - 1)
      else hd ds # CHR ''.'' # tl ds @ exponent_str (n - 1))"

fun toString_scaled :: "nat \<times> int \<Rightarrow> string" where
  "toString_scaled (s, e) = toString_digits (digits_of s) (e + int (length (digits_of s)))"

fun toString :: "jsnum \<Rightarrow> string" where
  "toString NaN = ''NaN''"
| "toString (Infinity neg) = (if neg then ''-Infinity'' else ''Infinity'')"
| "toString (Finite neg m e) =
     (if m = 0 then ''0''
      else (if neg then ''-'' else []) @ toString_scaled (strip10 m e))"

fun finite_of :: "bool \<Rightarrow> nat \<times> int \<Rightarrow> jsnum" where
  "finite_of neg (s, e) = Finite neg s e"

definition mk_finite :: "bool \<Rightarrow> nat \<Rightarrow> int \<Rightarrow> jsnum" where
  "mk_finite neg m e = (if m = 0 then Finite neg 0 0 else finite_of neg (strip10 m e))"

definition parse_exponent :: "string \<Rightarrow> int option" where
  "parse_exponent s =
     (case s of
        [] \<Rightarrow> None
      | c # r \<Rightarrow>
          let ds = (if c = CHR ''-'' \<or> c = CHR ''+'' then r else s) in
          if ds \<noteq> [] \<and> list_all is_digit ds
          then Some (if c = CHR ''-'' then - int (nat_of_digits ds) else int (nat_of_digits ds))
          else None)"

definition parse_unsigned :: "bool \<Rightarrow> string \<Rightarrow> jsnum" where
  "parse_unsigned neg s =
     (if s = ''Infinity'' then Infinity neg
      else
        let ip = takeWhile is_digit s;
            r1 = dropWhile is_digit s;
            fp = (case r1 of [] \<Rightarrow> [] | c # t \<Rightarrow> if c = CHR ''.'' then takeWhile is_digit t else []);
            r2 = (case r1 of [] \<Rightarrow> [] | c # t \<Rightarrow> if c = CHR ''.'' then dropWhile is_digit t else r1)
        in if ip = [] \<and> fp = [] then NaN
           else (case r2 of
                   [] \<Rightarrow> mk_finite neg (nat_of_digits (ip @ fp)) (- int (length fp))
                 | c # t \<Rightarrow>
                     if c = CHR ''e'' \<or> c = CHR ''E''
                     then (case parse_exponent t of
                             None \<Rightarrow> NaN
                           | Some x \<Rightarrow> mk_finite neg (nat_of_digits (ip @ fp)) (x - int (length fp)))
                     else NaN))"

definition Number :: "string \<Rightarrow> jsnum" where
  "Number s =
     (case s of
        [] \<Rightarrow> Finite False 0 0
      | c # r \<Rightarrow>
          if c = CHR ''-'' then parse_unsigned True r
          else if c = CHR ''+'' then parse_unsigned False r
          else parse_unsigned False s)"

definition dec_frac :: "nat \<Rightarrow> int \<Rightarrow> nat \<times> nat" where
  "dec_frac m e = (if 0 \<le> e then (m * 10 ^ nat e, 1) else (m, 10 ^ nat (- e)))"

fun frac_lt :: "nat \<times> nat \<Rightarrow> nat \<Rightarrow> bool" where
  "frac_lt (p, q) t = (p < t * q)"

fun js_lt :: "jsnum \<Rightarrow> nat \<Rightarrow> bool" where
  "js_lt NaN t = False"
| "js_lt (Infinity neg) t = neg"
| "js_lt (Finite neg m e) t = (if neg \<and> m \<noteq> 0 then True else frac_lt (dec_frac m e) t)"

fun js_ge :: "jsnum \<Rightarrow> nat \<Rightarrow> bool" where
  "js_ge NaN t = False"
| "js_ge (Infinity neg) t = (\<not> neg)"
| "js_ge (Finite neg m e) t = (if neg \<and> m \<noteq> 0 then False else \<not> frac_lt (dec_frac m e) t)"

fun js_div_pow10 :: "jsnum \<Rightarrow> nat \<Rightarrow> jsnum" where
  "js_div_pow10 NaN k = NaN"
| "js_div_pow10 (Infinity neg) k = Infinity neg"
| "js_div_pow10 (Finite neg m e) k = Finite neg m (e - int k)"

fun bits :: "nat \<Rightarrow> nat" where
  "bits n = (if n = 0 then 0 else 1 + bits (n div 2))"

declare bits.simps [simp del]

fun fl53 :: "nat \<times> nat \<Rightarrow> nat \<times> nat" where
  "fl53 (p, q) =
     (if p = 0 then (0, 1)
      else
        let sh0 = 53 + int (bits q) - int (bits p);
            sh = (if 2 ^ 53 * (q * 2 ^ nat (- sh0)) \<le> p * 2 ^ nat sh0 then sh0 - 1 else sh0);
            a = p * 2 ^ nat sh;
            b = q * 2 ^ nat (- sh);
            m0 = a div b;
            r = a mod b;
            m = (if b < 2 * r \<or> (2 * r = b \<and> odd m0) then m0 + 1 else m0)
        in (m * 2 ^ nat (- sh), 2 ^ nat sh))"

fun round_cents :: "nat \<times> nat \<Rightarrow> nat" where
  "round_cents (p, q) = (200 * p + q) div (2 * q)"

definition fixed2_digits :: "nat \<Rightarrow> string" where
  "fixed2_digits n =
     (let m = digits_of n;
          m' = (if length m \<le> 2 then replicate (3 - length m) CHR ''0'' @ m else m);
          k = length m'
      in take (k - 2) m' @ CHR ''.'' # drop (k - 2) m')"

fun toFixed2 :: "jsnum \<Rightarrow> string" where
  "toFixed2 NaN = ''NaN''"
| "toFixed2 (Infinity neg) = (if neg then ''-Infinity'' else ''Infinity'')"
| "toFixed2 (Finite neg m e) =
     (if neg \<and> m \<noteq> 0 then ''-'' else []) @
     (if js_ge (Finite False m e) (10 ^ 21) then toString (Finite False m e)
      else fixed2_digits (round_cents (fl53 (dec_frac m e))))"

section \<open>String operations of the source\<close>

text \<open>
  \<open>replace_first\<close> is \<^verbatim>\<open>String.prototype.replace\<close> with a one-character string pattern:
  only the first occurrence is replaced. \<open>trim_zeros\<close> is
  \<^verbatim>\<open>.replace(/\.0+$|(\.[0-9]*[1-9])0+$/, "$1")\<close>: the leftmost position where one of the
  two alternatives matches up to the end of the string is replaced by the first group (empty
  for the first alternative). \<open>group_from\<close> is
  \<^verbatim>\<open>.replace(/\B(?=(\d{3})+(?!\d))/g, sep)\<close>: the separator is inserted at every position
  that is not a word boundary and is followed by a run of digits whose length is a positive
  multiple of three.
\<close>

fun replace_first :: "char \<Rightarrow> string \<Rightarrow> string \<Rightarrow> string" where
  "replace_first p r [] = []"
| "replace_first p r (c # cs) = (if c = p then r @ cs else c # replace_first p r cs)"

definition strip_zeros :: "string \<Rightarrow> string" where
  "strip_zeros s = rev (dropWhile (\<lambda>c. c = CHR ''0'') (rev s))"

definition trim_match :: "string \<Rightarrow> string option" where
  "trim_match s =
     (case s of
        [] \<Rightarrow> None
      | c # r \<Rightarrow>
          if c \<noteq> CHR ''.'' then None
          else if r \<noteq> [] \<and> list_all (\<lambda>d. d = CHR ''0'') r then Some []
          else if r \<noteq> [] \<and> list_all is_digit r \<and> last r = CHR ''0'' \<and> strip_zeros r \<noteq> []
               then Some (CHR ''.'' # strip_zeros r)
          else None)"

fun trim_zeros :: "string \<Rightarrow> string" where
  "trim_zeros [] = []"
| "trim_zeros (c # cs) =
     (case trim_match (c # cs) of Some t \<Rightarrow> t | None \<Rightarrow> c # trim_zeros cs)"

definition lookahead3 :: "string \<Rightarrow> bool" where
  "lookahead3 s = (let r = length (takeWhile is_digit s) in r \<noteq> 0 \<and> r mod 3 = 0)"

definition non_word_boundary :: "char option \<Rightarrow> char \<Rightarrow> bool" where
  "non_word_boundary prev c = ((case prev of None \<Rightarrow> False | Some b \<Rightarrow> is_word b) = is_word c)"

fun group_from :: "char option \<Rightarrow> string \<Rightarrow> string \<Rightarrow> string" where
  "group_from prev sep [] = []"
| "group_from prev sep (c # cs) =
     (if non_word_boundary prev c \<and> lookahead3 (c # cs) then sep else []) @
     c # group_from (Some c) sep cs"

fun split_on :: "char \<Rightarrow> string \<Rightarrow> string list" where
  "split_on p [] = [[]]"
| "split_on p (c # cs) =
     (if c = p then [] # split_on p cs
      else (case split_on p cs of
              [] \<Rightarrow> [[c]]
            | x # xs \<Rightarrow> (c # x) # xs))"

fun join :: "string \<Rightarrow> string list \<Rightarrow> string" where
  "join sep [] = []"
| "join sep [x] = x"
| "join sep (x # y # ys) = x @ sep @ join sep (y # ys)"

section \<open>numify and formatNumber\<close>

text \<open>
  An absent option field is \<open>None\<close>; the destructuring defaults of the source
  (\<^verbatim>\<open>formatType = 'en'\<close>, \<^verbatim>\<open>precise = false\<close>, \<^verbatim>\<open>style = 'short'\<close>) are applied inside the
  functions. A magnitude unit \<open>(k, u)\<close> is the threshold \<open>10\<^sup>k\<close> (written \<^verbatim>\<open>1ek\<close> in the
  source) with its suffix \<open>u\<close>. A key that is missing from \<^verbatim>\<open>LONG_UNITS\<close> reads as
  \<^verbatim>\<open>undefined\<close>, which the template literal prints as the word \<^verbatim>\<open>undefined\<close>.
\<close>

record NumifyOptions =
  formatType :: "string option"
  precise :: "bool option"
  style :: "string option"

definition LONG_UNITS :: "string \<rightharpoonup> string" where
  "LONG_UNITS = map_of
     [(''k'', ''thousand''), (''M'', ''million''), (''B'', ''billion''), (''T'', ''trillion''),
      (''E'', ''quintillion''), (''P'', ''quadrillion''), (''Cr'', ''crore''), (''L'', ''lakh'')]"

definition units :: "SystemType \<Rightarrow> (nat \<times> string) list" where
  "units sys =
     (if sys = indian then [(7, ''Cr''), (5, ''L''), (3, ''K'')]
      else [(18, ''E''), (15, ''P''), (12, ''T''), (9, ''B''), (6, ''M''), (3, ''k'')])"

definition sanitize :: "jsnum \<Rightarrow> jsnum" where
  "sanitize num = Number (filter (\<lambda>c. is_digit c \<or> c = CHR ''.'') (toString num))"

definition numify :: "jsnum \<Rightarrow> NumifyOptions \<Rightarrow> string" where
  "numify num0 options =
     (let formatType = (case formatType options of None \<Rightarrow> ''en'' | Some f \<Rightarrow> f);
          precise = (case precise options of None \<Rightarrow> False | Some b \<Rightarrow> b);
          style = (case style options of None \<Rightarrow> ''short'' | Some s \<Rightarrow> s);
          num = sanitize num0;
          format = getFormat (Some formatType)
      in if js_lt num 1000
         then (if precise then replace_first CHR ''.'' (decimal format) (toFixed2 num)
               else toString num)
         else (case find (\<lambda>(k, u). js_ge num (10 ^ k)) (units (system format)) of
                 None \<Rightarrow> toString num
               | Some (k, u) \<Rightarrow>
                   let value = replace_first CHR ''.'' (decimal format)
                                 (trim_zeros (toFixed2 (js_div_pow10 num k)));
                       suffix = (if style = ''long''
                                 then CHR '' '' # (case LONG_UNITS u of
                                                     None \<Rightarrow> ''undefined''
                                                   | Some w \<Rightarrow> w)
                                 else u)
                   in value @ suffix))"

record FormatNumberOptions =
  fn_formatType :: "string option"

definition formatNumber :: "jsnum \<Rightarrow> FormatNumberOptions \<Rightarrow> string" where
  "formatNumber num options =
     (let formatType = (case fn_formatType options of None \<Rightarrow> ''en'' | Some f \<Rightarrow> f);
          format = getFormat (Some formatType);
          parts = split_on CHR ''.'' (toString num);
          parts' = group_from None (thousand format) (hd parts) # tl parts
      in if 1 < length parts' then join (decimal format) parts' else hd parts')"

text \<open>
  The earlier implementation (\<^verbatim>\<open>src/index.ts\<close>) without options: it returns the number
  itself below 1000, and searches its ascending table from the top index down to 1.
\<close>

definition si :: "(nat \<times> string) list" where
  "si = [(3, ''k''), (6, ''M''), (9, ''B''), (12, ''T''), (15, ''P''), (18, ''E'')]"

fun legacy_index :: "jsnum \<Rightarrow> nat \<Rightarrow> nat" where
  "legacy_index num 0 = 0"
| "legacy_index num (Suc i) =
     (if js_ge num (10 ^ fst (si ! Suc i)) then Suc i else legacy_index num i)"

definition numify_legacy :: "jsnum \<Rightarrow> jsnum + string" where
  "numify_legacy num0 =
     (let num = sanitize num0
      in if js_lt num 1000 then Inl num
         else let index = legacy_index num (length si - 1)
              in Inr (trim_zeros (toFixed2 (js_div_pow10 num (fst (si ! index))))
                      @ snd (si ! index)))"

section \<open>Notions used to state the properties\<close>


text \<open>
  The pieces of \<open>numify\<close> that the properties speak about: the resolved configuration, the
  unit found on the ladder, the scaled and trimmed rendering, and the suffix.
\<close>

definition format_of :: "NumifyOptions \<Rightarrow> NumberFormat" where
  "format_of options = getFormat (Some (case formatType options of None \<Rightarrow> ''en'' | Some f \<Rightarrow> f))"

definition chosen_unit :: "jsnum \<Rightarrow> SystemType \<Rightarrow> (nat \<times> string) option" where
  "chosen_unit num sys = find (\<lambda>(k, u). js_ge num (10 ^ k)) (units sys)"

definition render_unit :: "NumberFormat \<Rightarrow> jsnum \<Rightarrow> nat \<Rightarrow> string" where
  "render_unit format num k =
     replace_first CHR ''.'' (decimal format) (trim_zeros (toFixed2 (js_div_pow10 num k)))"

definition suffix_of :: "NumifyOptions \<Rightarrow> string \<Rightarrow> string" where
  "suffix_of options u =
     (if (case style options of None \<Rightarrow> ''short'' | Some s \<Rightarrow> s) = ''long''
      then CHR '' '' # (case LONG_UNITS u of None \<Rightarrow> ''undefined'' | Some w \<Rightarrow> w)
      else u)"



text \<open>
  \<open>canonical v\<close> is the representation of the number \<open>v\<close> without trailing zeros in the
  mantissa (and \<open>+0\<close> for both zeros, which print alike).
\<close>

fun canonical :: "jsnum \<Rightarrow> jsnum" where
  "canonical NaN = NaN"
| "canonical (Infinity neg) = Infinity neg"
| "canonical (Finite neg m e) = (if m = 0 then Finite False 0 0 else finite_of neg (strip10 m e))"

text \<open>
  Grouping as claim C5 describes it: \<open>group3\<close> cuts groups of three digits from the right
  and puts the separator between them; a string of at most three digits is left alone.
  \<open>group_left\<close> is the same grouping computed from the left: a separator follows a digit
  when the number of digits after it is a positive multiple of three.
\<close>

function group3 :: "string \<Rightarrow> string \<Rightarrow> string" where
  "group3 sep ds =
     (if length ds \<le> 3 then ds
      else group3 sep (take (length ds - 3) ds) @ sep @ drop (length ds - 3) ds)"
  by pat_completeness auto
termination
  by (relation "measure (\<lambda>(sep, ds). length ds)") auto

declare group3.simps [simp del]

fun group_left :: "string \<Rightarrow> string \<Rightarrow> string" where
  "group_left sep [] = []"
| "group_left sep (d # ds) =
     d # (if ds \<noteq> [] \<and> length ds mod 3 = 0 then sep else []) @ group_left sep ds"

text \<open>
  The output that claim C5 describes for the decimal string \<open>s\<close> of a number: an optional
  sign, the integer digits grouped, and the rest of the string, where a dot that follows
  the integer digits is replaced by the decimal separator.
\<close>

definition grouped_string :: "string \<Rightarrow> string \<Rightarrow> string \<Rightarrow> string" where
  "grouped_string sep dec s =
     (let sg = takeWhile (\<lambda>c. c = CHR ''-'') s;
          r = dropWhile (\<lambda>c. c = CHR ''-'') s;
          ds = takeWhile is_digit r;
          t = dropWhile is_digit r
      in sg @ group3 sep ds @
         (case t of [] \<Rightarrow> [] | c # f \<Rightarrow> if c = CHR ''.'' then dec @ f else t))"

text \<open>
  The decimal exponent of a finite number lies between -324 and 308 for every double;
  \<open>exponent_in_range\<close> is the weaker bound that the properties of \<open>formatNumber\<close> need.
\<close>

fun exponent_in_range :: "jsnum \<Rightarrow> bool" where
  "exponent_in_range (Finite neg m e) =
     (m = 0 \<or> \<bar>snd (strip10 m e) + int (length (digits_of (fst (strip10 m e)))) - 1\<bar> < 1000)"
| "exponent_in_range NaN = True"
| "exponent_in_range (Infinity neg) = True"

text \<open>Removing every character of the thousand separator from a string.\<close>

definition strip_separators :: "string \<Rightarrow> string \<Rightarrow> string" where
  "strip_separators sep s = filter (\<lambda>c. c \<notin> set sep) s"


text \<open>
  The configuration that \<open>formatNumber\<close> resolves, and the part of \<open>formatNumber\<close> that
  follows the conversion of the number to its decimal string.
\<close>

definition fn_format_of :: "FormatNumberOptions \<Rightarrow> NumberFormat" where
  "fn_format_of options =
     getFormat (Some (case fn_formatType options of None \<Rightarrow> ''en'' | Some f \<Rightarrow> f))"

definition format_string :: "NumberFormat \<Rightarrow> string \<Rightarrow> string" where
  "format_string format s =
     (let parts = split_on CHR ''.'' s;
          parts' = group_from None (thousand format) (hd parts) # tl parts
      in if 1 < length parts' then join (decimal format) parts' else hd parts')"

text \<open>Rules that evaluate the definitions on numerals and string literals.\<close>

lemma replicate_unfold: "replicate n x = (if n = 0 then [] else x # replicate (n - 1) x)"
  by (cases n) simp_all

lemmas eval_defs =
  digits_of.simps strip10.simps bits.simps group3.simps replicate_unfold
  numify_def sanitize_def Number_def parse_unsigned_def parse_exponent_def mk_finite_def
  toString_digits_def exponent_str_def is_digit_def is_word_def digit_char_def digit_val_def
  nat_of_digits_def getFormat_def FORMAT_LOCALES_def units_def LONG_UNITS_def dec_frac_def
  fixed2_digits_def trim_match_def strip_zeros_def lookahead3_def non_word_boundary_def
  formatNumber_def numify_legacy_def si_def Let_def

section \<open>Format resolution\<close>

lemma FORMAT_LOCALES_en: "FORMAT_LOCALES ''en'' = Some locale_en"
  by (simp add: FORMAT_LOCALES_def locale_en_def)





section \<open>Suffix selection\<close>

text \<open>
  Claim C8 says that with style \<open>long\<close> the output ends in a space and the
  \<^verbatim>\<open>LONG_UNITS\<close> word of the chosen unit. The Indian ladder's smallest unit is \<open>K\<close>, and
  \<^verbatim>\<open>LONG_UNITS\<close> has the key \<open>k\<close> only: for 1234 in the Indian system the code appends
  the word \<^verbatim>\<open>undefined\<close>.
\<close>

theorem numify_long_indian_thousand:
  "numify (Finite False 1234 0)
     \<lparr>formatType = Some ''in'', precise = None, style = Some ''long''\<rparr> = ''1.23 undefined''"
  by (simp add: eval_defs)

section \<open>Digit characters and comparisons\<close>

lemma digit_cases:
  assumes "d < (10::nat)"
  shows "d = 0 \<or> d = 1 \<or> d = 2 \<or> d = 3 \<or> d = 4 \<or> d = 5 \<or> d = 6 \<or> d = 7 \<or> d = 8 \<or> d = 9"
  using assms by arith

lemma is_digit_digit_char: "d < 10 \<Longrightarrow> is_digit (digit_char d)"
  using digit_cases [of d] by (auto simp: digit_char_def is_digit_def)

lemma digit_val_digit_char: "d < 10 \<Longrightarrow> digit_val (digit_char d) = d"
  using digit_cases [of d] by (auto simp: digit_char_def digit_val_def)


lemma not_digit_chars [simp]:
  "\<not> is_digit CHR ''.''" "\<not> is_digit CHR ''-''" "\<not> is_digit CHR ''+''"
  "\<not> is_digit CHR ''e''" "\<not> is_digit CHR ''E''" "\<not> is_digit CHR '',''"
  "\<not> is_digit CHR '' ''" "\<not> is_digit (CHR 0x27)"
  by (simp_all add: is_digit_def)

lemma is_digit_is_word: "is_digit c \<Longrightarrow> is_word c"
  by (simp add: is_digit_def is_word_def)

lemma is_digit_neq [simp]:
  "is_digit c \<Longrightarrow> c \<noteq> CHR ''.''" "is_digit c \<Longrightarrow> c \<noteq> CHR ''-''"
  "is_digit c \<Longrightarrow> c \<noteq> CHR ''+''" "is_digit c \<Longrightarrow> c \<noteq> CHR ''e''"
  "is_digit c \<Longrightarrow> c \<noteq> CHR ''E''"
  by (auto simp: is_digit_def)

lemma js_ge_not_lt: "js_ge v t \<Longrightarrow> \<not> js_lt v t"
  by (cases v) (auto split: if_splits)

lemma frac_lt_mono: "frac_lt f t \<Longrightarrow> t \<le> t' \<Longrightarrow> frac_lt f t'"
proof (cases f)
  case (Pair p q)
  assume lt: "frac_lt f t" and le: "t \<le> t'"
  from lt Pair have "p < t * q" by simp
  moreover from le have "t * q \<le> t' * q" by (rule mult_le_mono1)
  ultimately have "p < t' * q" by linarith
  then show ?thesis using Pair by simp
qed


lemma js_lt_mono: "js_lt v t \<Longrightarrow> t \<le> t' \<Longrightarrow> js_lt v t'"
  by (cases v) (auto split: if_splits dest: frac_lt_mono)

section \<open>Sanitization discards the sign\<close>




section \<open>The two branches of numify\<close>

lemma numify_small:
  assumes "js_lt (sanitize v) 1000"
  shows "numify v options =
           (if (case precise options of None \<Rightarrow> False | Some b \<Rightarrow> b)
            then replace_first CHR ''.'' (decimal (format_of options)) (toFixed2 (sanitize v))
            else toString (sanitize v))"
  using assms by (simp add: numify_def format_of_def Let_def)

lemma numify_large:
  assumes "\<not> js_lt (sanitize v) 1000"
  shows "numify v options =
           (case chosen_unit (sanitize v) (system (format_of options)) of
              None \<Rightarrow> toString (sanitize v)
            | Some (k, u) \<Rightarrow> render_unit (format_of options) (sanitize v) k @ suffix_of options u)"
  using assms
  by (simp add: numify_def format_of_def chosen_unit_def render_unit_def suffix_of_def Let_def
           split: option.splits)

lemma chosen_unit_largest:
  assumes "js_ge num 1000"
  shows "\<exists>k u. chosen_unit num sys = Some (k, u)
           \<and> (k, u) \<in> set (units sys)
           \<and> js_ge num (10 ^ k)
           \<and> (\<forall>(k', u') \<in> set (units sys). js_ge num (10 ^ k') \<longrightarrow> k' \<le> k)"
proof (cases sys)
  case international
  then show ?thesis using assms
    by (auto simp: chosen_unit_def units_def)
next
  case indian
  then show ?thesis using assms
    by (auto simp: chosen_unit_def units_def)
qed

text \<open>
  Claim C1. When the sanitized value is at least 1000, the ladder is \<open>units\<close> of the
  configuration's number system and of nothing else (the two ladders are the constants
  below), the unit that \<open>numify\<close> renders with is the first one on the ladder whose
  threshold is at most the value, and no unit of the ladder with a larger threshold is
  at most the value.
\<close>

theorem numify_unit_selection:
  assumes "js_ge (sanitize v) 1000"
  shows "units indian = [(7, ''Cr''), (5, ''L''), (3, ''K'')]
         \<and> units international
             = [(18, ''E''), (15, ''P''), (12, ''T''), (9, ''B''), (6, ''M''), (3, ''k'')]
         \<and> (\<exists>k u. chosen_unit (sanitize v) (system (format_of options)) = Some (k, u)
               \<and> (k, u) \<in> set (units (system (format_of options)))
               \<and> js_ge (sanitize v) (10 ^ k)
               \<and> (\<forall>(k', u') \<in> set (units (system (format_of options))).
                     js_ge (sanitize v) (10 ^ k') \<longrightarrow> k' \<le> k)
               \<and> numify v options
                   = render_unit (format_of options) (sanitize v) k @ suffix_of options u)"
proof -
  from chosen_unit_largest [OF assms, of "system (format_of options)"]
  obtain k u where ku: "chosen_unit (sanitize v) (system (format_of options)) = Some (k, u)"
    "(k, u) \<in> set (units (system (format_of options)))"
    "js_ge (sanitize v) (10 ^ k)"
    "\<forall>(k', u') \<in> set (units (system (format_of options))). js_ge (sanitize v) (10 ^ k') \<longrightarrow> k' \<le> k"
    by blast
  from assms have "\<not> js_lt (sanitize v) 1000" by (rule js_ge_not_lt)
  then have "numify v options = render_unit (format_of options) (sanitize v) k @ suffix_of options u"
    by (simp add: numify_large ku(1))
  with ku show ?thesis by (simp add: units_def)
qed


theorem numify_unit_selection_witness:
  "js_ge (sanitize (Finite False 1234567 0)) 1000
   \<and> (units indian = [(7, ''Cr''), (5, ''L''), (3, ''K'')]
         \<and> units international
             = [(18, ''E''), (15, ''P''), (12, ''T''), (9, ''B''), (6, ''M''), (3, ''k'')]
         \<and> (\<exists>k u. chosen_unit (sanitize (Finite False 1234567 0))
                       (system (format_of \<lparr>formatType = None, precise = None, style = None\<rparr>))
                     = Some (k, u)
               \<and> (k, u) \<in> set (units (system
                       (format_of \<lparr>formatType = None, precise = None, style = None\<rparr>)))
               \<and> js_ge (sanitize (Finite False 1234567 0)) (10 ^ k)
               \<and> (\<forall>(k', u') \<in> set (units (system
                       (format_of \<lparr>formatType = None, precise = None, style = None\<rparr>))).
                     js_ge (sanitize (Finite False 1234567 0)) (10 ^ k') \<longrightarrow> k' \<le> k)
               \<and> numify (Finite False 1234567 0)
                     \<lparr>formatType = None, precise = None, style = None\<rparr>
                   = render_unit (format_of \<lparr>formatType = None, precise = None, style = None\<rparr>)
                       (sanitize (Finite False 1234567 0)) k
                     @ suffix_of \<lparr>formatType = None, precise = None, style = None\<rparr> u))"
proof -
  have h: "js_ge (sanitize (Finite False 1234567 0)) 1000"
    by (simp add: eval_defs)
  show ?thesis
    by (rule conjI [OF h numify_unit_selection [OF h]])
qed

section \<open>The earlier implementation\<close>

lemma replace_first_dot_dot: "replace_first c [c] s = s"
  by (induction s) auto

lemma legacy_index_top:
  "legacy_index num (length si - 1) =
     (if js_ge num (10 ^ 18) then 5 else if js_ge num (10 ^ 15) then 4
      else if js_ge num (10 ^ 12) then 3 else if js_ge num (10 ^ 9) then 2
      else if js_ge num (10 ^ 6) then 1 else 0)"
proof -
  have len: "length si - 1 = Suc (Suc (Suc (Suc (Suc 0))))"
    by (simp add: si_def)
  have nth: "si ! Suc (Suc (Suc (Suc (Suc 0)))) = (18, ''E'')" "si ! Suc (Suc (Suc (Suc 0))) = (15, ''P'')"
    "si ! Suc (Suc (Suc 0)) = (12, ''T'')" "si ! Suc (Suc 0) = (9, ''B'')" "si ! Suc 0 = (6, ''M'')"
    by (simp_all add: si_def)
  show ?thesis
    unfolding len by (simp add: nth)
qed

lemma chosen_unit_international:
  assumes "js_ge num 1000"
  shows "chosen_unit num international =
           Some (si ! legacy_index num (length si - 1))"
  using assms unfolding legacy_index_top
  by (simp add: chosen_unit_def units_def si_def)

lemma format_of_default:
  "formatType options = None \<or> formatType options = Some ''en''
   \<Longrightarrow> format_of options = locale_en"
  by (auto simp: format_of_def getFormat_def FORMAT_LOCALES_en)

lemma numify_legacy_eq_default:
  assumes ge: "js_ge (sanitize v) 1000"
    and ft: "formatType options = None \<or> formatType options = Some ''en''"
    and st: "style options = None \<or> style options = Some ''short''"
  shows "numify_legacy v = Inr (numify v options)"
proof -
  let ?num = "sanitize v"
  let ?i = "legacy_index ?num (length si - 1)"
  from ge have nlt: "\<not> js_lt ?num 1000" by (rule js_ge_not_lt)
  have fmt: "format_of options = locale_en" using ft by (rule format_of_default)
  have unit: "chosen_unit ?num (system (format_of options)) = Some (fst (si ! ?i), snd (si ! ?i))"
    using chosen_unit_international [OF ge] by (simp add: fmt locale_en_def)
  have suffix: "suffix_of options u = u" for u
    using st by (auto simp: suffix_of_def)
  have "numify v options =
           (case chosen_unit ?num (system (format_of options)) of
              None \<Rightarrow> toString ?num
            | Some (k, u) \<Rightarrow> render_unit (format_of options) ?num k @ suffix_of options u)"
    using nlt by (rule numify_large)
  also have "\<dots> = render_unit (format_of options) ?num (fst (si ! ?i))
                     @ suffix_of options (snd (si ! ?i))"
    unfolding unit by (simp add: split_beta)
  also have "\<dots> = trim_zeros (toFixed2 (js_div_pow10 ?num (fst (si ! ?i)))) @ snd (si ! ?i)"
    by (simp add: suffix fmt render_unit_def locale_en_def replace_first_dot_dot)
  finally show ?thesis
    using nlt by (simp add: numify_legacy_def Let_def)
qed

text \<open>
  Claim C10. When the sanitized value is at least 1000, the earlier implementation returns
  the string that \<open>numify\<close> returns with the default options, given explicitly or left
  absent: the downward search of the ascending table finds the unit that \<open>find\<close> finds on
  the descending international ladder, and the English decimal separator leaves the
  rendering unchanged.
\<close>

theorem numify_legacy_refines:
  assumes "js_ge (sanitize v) 1000"
  shows "numify_legacy v
           = Inr (numify v \<lparr>formatType = Some ''en'', precise = Some False, style = Some ''short''\<rparr>)
         \<and> numify_legacy v = Inr (numify v \<lparr>formatType = None, precise = None, style = None\<rparr>)"
  using assms by (simp add: numify_legacy_eq_default)

theorem numify_legacy_refines_witness:
  "js_ge (sanitize (Finite False 974238754 (- 2))) 1000
   \<and> (numify_legacy (Finite False 974238754 (- 2))
           = Inr (numify (Finite False 974238754 (- 2))
                   \<lparr>formatType = Some ''en'', precise = Some False, style = Some ''short''\<rparr>)
         \<and> numify_legacy (Finite False 974238754 (- 2))
           = Inr (numify (Finite False 974238754 (- 2))
                   \<lparr>formatType = None, precise = None, style = None\<rparr>))"
proof -
  have h: "js_ge (sanitize (Finite False 974238754 (- 2))) 1000"
    by (simp add: eval_defs)
  show ?thesis
    by (rule conjI [OF h numify_legacy_refines [OF h]])
qed

section \<open>The precise flag\<close>

lemma format_of_precise [simp]: "format_of (options\<lparr>precise := p\<rparr>) = format_of options"
  by (simp add: format_of_def)

lemma suffix_of_precise [simp]: "suffix_of (options\<lparr>precise := p\<rparr>) = suffix_of options"
  by (simp add: suffix_of_def fun_eq_iff)


section \<open>Digits of a natural number\<close>

lemma digits_of_small: "n < 10 \<Longrightarrow> digits_of n = [digit_char n]"
  by (subst digits_of.simps) simp

lemma digits_of_large: "10 \<le> n \<Longrightarrow> digits_of n = digits_of (n div 10) @ [digit_char (n mod 10)]"
  by (subst digits_of.simps) simp

lemma digits_of_digits: "list_all is_digit (digits_of n)"
proof (induction n rule: digits_of.induct)
  case (1 n)
  show ?case
  proof (cases "n < 10")
    case True
    then show ?thesis by (simp add: digits_of_small is_digit_digit_char)
  next
    case False
    with 1 show ?thesis by (simp add: digits_of_large is_digit_digit_char)
  qed
qed

lemma digits_of_nonempty: "digits_of n \<noteq> []"
  by (cases "n < 10") (simp_all add: digits_of_small digits_of_large)

lemma digits_of_no_dot: "CHR ''.'' \<notin> set (digits_of n)"
  using digits_of_digits [of n] by (auto simp: list_all_iff)


section \<open>Two decimals and the trimming of zeros\<close>









section \<open>The sanitized value\<close>






lemma toFixed2_nonneg:
  assumes "\<not> js_ge (Finite False m e) (10 ^ 21)"
  shows "toFixed2 (Finite False m e) = fixed2_digits (round_cents (fl53 (dec_frac m e)))"
  using assms by simp

section \<open>Division by a threshold\<close>




section \<open>Rounding to two decimals and trimming\<close>




section \<open>The precise flag below 1000\<close>




section \<open>Normal forms of decimal numerals\<close>

lemma strip10_fixed: "m = 0 \<or> m mod 10 \<noteq> 0 \<Longrightarrow> strip10 m e = (m, e)"
  by (subst strip10.simps) auto

lemma strip10_step: "m \<noteq> 0 \<Longrightarrow> m mod 10 = 0 \<Longrightarrow> strip10 m e = strip10 (m div 10) (e + 1)"
  by (subst strip10.simps) simp

lemma strip10_normal:
  "m \<noteq> 0 \<Longrightarrow> strip10 m e = (s, e') \<Longrightarrow> s \<noteq> 0 \<and> s mod 10 \<noteq> 0"
proof (induction m e rule: strip10.induct)
  case (1 m e)
  show ?case
  proof (cases "m mod 10 = 0")
    case True
    with 1(2) have "m div 10 \<noteq> 0" by auto
    moreover have "strip10 (m div 10) (e + 1) = (s, e')"
      using 1(2,3) True by (simp add: strip10_step)
    ultimately show ?thesis using 1(1) 1(2) True by blast
  next
    case False
    with 1(3) have "s = m" by (simp add: strip10_fixed)
    with False 1(2) show ?thesis by simp
  qed
qed

lemma strip10_pow:
  "s \<noteq> 0 \<Longrightarrow> s mod 10 \<noteq> 0 \<Longrightarrow> strip10 (s * 10 ^ j) e = (s, e + int j)"
proof (induction j arbitrary: e)
  case 0
  then show ?case by (simp add: strip10_fixed)
next
  case (Suc j)
  have "strip10 (s * 10 ^ Suc j) e = strip10 (s * 10 ^ j) (e + 1)"
    using Suc.prems by (subst strip10_step) simp_all
  then show ?case using Suc by simp
qed

lemma dec_frac_times10:
  "frac_lt (dec_frac (10 * m) e) t = frac_lt (dec_frac m (e + 1)) t"
proof -
  consider "0 \<le> e" | "e = - 1" | "e < - 1" by linarith
  then show ?thesis
  proof cases
    case 1
    then have "nat (e + 1) = Suc (nat e)" by simp
    with 1 show ?thesis by (simp add: dec_frac_def mult_ac)
  next
    case 2
    then show ?thesis by (simp add: dec_frac_def mult_ac)
  next
    case 3
    then have n: "nat (- e) = Suc (nat (- (e + 1)))" by simp
    have "10 * m < t * 10 ^ Suc (nat (- (e + 1))) \<longleftrightarrow> m < t * 10 ^ nat (- (e + 1))"
      by simp
    with 3 show ?thesis unfolding dec_frac_def n by simp
  qed
qed

lemma strip10_frac_lt:
  "strip10 m e = (s, e') \<Longrightarrow> frac_lt (dec_frac s e') t = frac_lt (dec_frac m e) t"
proof (induction m e rule: strip10.induct)
  case (1 m e)
  show ?case
  proof (cases "m \<noteq> 0 \<and> m mod 10 = 0")
    case True
    then have m: "m = 10 * (m div 10)" by auto
    have "strip10 (m div 10) (e + 1) = (s, e')"
      using 1(2) True by (simp add: strip10_step)
    with 1(1) True have "frac_lt (dec_frac s e') t = frac_lt (dec_frac (m div 10) (e + 1)) t"
      by blast
    also have "\<dots> = frac_lt (dec_frac (10 * (m div 10)) e) t"
      by (rule dec_frac_times10 [symmetric])
    finally show ?thesis using m by simp
  next
    case False
    with 1(2) show ?thesis by (auto simp: strip10_fixed)
  qed
qed

section \<open>Reading digits\<close>

lemma foldl_digits_shift:
  "foldl (\<lambda>a c. 10 * a + digit_val c) a0 ds
     = a0 * 10 ^ length ds + foldl (\<lambda>a c. 10 * a + digit_val c) 0 ds"
proof (induction ds arbitrary: a0)
  case Nil
  then show ?case by simp
next
  case (Cons d ds)
  define f where "f = (\<lambda>a c. 10 * a + digit_val c)"
  have ih: "foldl f a ds = a * 10 ^ length ds + foldl f 0 ds" for a
    unfolding f_def by (rule Cons)
  have "foldl f a0 (d # ds) = foldl f (10 * a0 + digit_val d) ds"
    by (simp add: f_def)
  also have "\<dots> = (10 * a0 + digit_val d) * 10 ^ length ds + foldl f 0 ds"
    by (rule ih)
  also have "\<dots> = a0 * 10 ^ length (d # ds) + (digit_val d * 10 ^ length ds + foldl f 0 ds)"
    by (simp add: algebra_simps)
  also have "digit_val d * 10 ^ length ds + foldl f 0 ds = foldl f (digit_val d) ds"
    by (rule ih [symmetric])
  also have "foldl f (digit_val d) ds = foldl f 0 (d # ds)"
    by (simp add: f_def)
  finally show ?case unfolding f_def .
qed

lemma nat_of_digits_append:
  "nat_of_digits (a @ b) = nat_of_digits a * 10 ^ length b + nat_of_digits b"
  unfolding nat_of_digits_def foldl_append
  by (rule foldl_digits_shift)

lemma nat_of_digits_single: "d < 10 \<Longrightarrow> nat_of_digits [digit_char d] = d"
  by (simp add: nat_of_digits_def digit_val_digit_char)

lemma nat_of_digits_digits_of: "nat_of_digits (digits_of n) = n"
proof (induction n rule: digits_of.induct)
  case (1 n)
  show ?case
  proof (cases "n < 10")
    case True
    then show ?thesis by (simp add: digits_of_small nat_of_digits_single)
  next
    case False
    then have "nat_of_digits (digits_of n) = nat_of_digits (digits_of (n div 10)) * 10 + n mod 10"
      by (simp add: digits_of_large nat_of_digits_append nat_of_digits_single)
    with 1 False show ?thesis by simp
  qed
qed

lemma nat_of_digits_zeros: "nat_of_digits (replicate j CHR ''0'') = 0"
  by (induction j) (simp_all add: nat_of_digits_def digit_val_def)

lemma takeWhile_digits:
  "list_all is_digit ds \<Longrightarrow> t = [] \<or> \<not> is_digit (hd t) \<Longrightarrow> takeWhile is_digit (ds @ t) = ds"
  by (cases t) (auto simp: list_all_iff)

lemma dropWhile_digits:
  "list_all is_digit ds \<Longrightarrow> t = [] \<or> \<not> is_digit (hd t) \<Longrightarrow> dropWhile is_digit (ds @ t) = t"
  by (cases t) (auto simp: list_all_iff)

lemma zeros_digits: "list_all is_digit (replicate j CHR ''0'')"
  by (induction j) (simp_all add: is_digit_def)

section \<open>Parsing the strings that toString prints\<close>

lemma parse_exponent_exponent:
  "parse_exponent ((if 0 \<le> x then CHR ''+'' else CHR ''-'') # digits_of (nat \<bar>x\<bar>)) = Some x"
  by (simp add: parse_exponent_def digits_of_nonempty digits_of_digits nat_of_digits_digits_of)

lemma exponent_str_head: "exponent_str x = CHR ''e'' # tl (exponent_str x)"
  by (simp add: exponent_str_def)

lemma exponent_str_no_dot: "CHR ''.'' \<notin> set (exponent_str x)"
  using digits_of_no_dot by (auto simp: exponent_str_def)

lemma parse_unsigned_int:
  assumes "list_all is_digit ds" "ds \<noteq> []"
  shows "parse_unsigned neg ds = mk_finite neg (nat_of_digits ds) 0"
proof -
  from assms have ninf: "ds \<noteq> ''Infinity''" by (auto simp: is_digit_def)
  have tw: "takeWhile is_digit ds = ds" "dropWhile is_digit ds = []"
    using assms(1) by (simp_all add: list_all_iff)
  show ?thesis using assms(2) ninf
    by (simp add: parse_unsigned_def Let_def tw)
qed

lemma parse_unsigned_frac:
  assumes "list_all is_digit ip" "list_all is_digit fp" "ip \<noteq> []"
  shows "parse_unsigned neg (ip @ CHR ''.'' # fp)
           = mk_finite neg (nat_of_digits (ip @ fp)) (- int (length fp))"
proof -
  from assms have ninf: "ip @ CHR ''.'' # fp \<noteq> ''Infinity''"
    by (cases ip) (auto simp: is_digit_def)
  have tw: "takeWhile is_digit (ip @ CHR ''.'' # fp) = ip"
    "dropWhile is_digit (ip @ CHR ''.'' # fp) = CHR ''.'' # fp"
    using assms(1) by (simp_all add: takeWhile_digits dropWhile_digits)
  have tw2: "takeWhile is_digit fp = fp" "dropWhile is_digit fp = []"
    using assms(2) by (simp_all add: list_all_iff)
  show ?thesis using assms(3) ninf
    by (simp add: parse_unsigned_def Let_def tw tw2)
qed

lemma parse_unsigned_exp_tail:
  assumes "list_all is_digit ip" "ip \<noteq> []" "parse_exponent t = Some x"
  shows "parse_unsigned neg (ip @ CHR ''e'' # t) = mk_finite neg (nat_of_digits ip) x"
proof -
  from assms have ninf: "ip @ CHR ''e'' # t \<noteq> ''Infinity''"
    by (cases ip) (auto simp: is_digit_def)
  have tw: "takeWhile is_digit (ip @ CHR ''e'' # t) = ip"
    "dropWhile is_digit (ip @ CHR ''e'' # t) = CHR ''e'' # t"
    using assms(1) by (simp_all add: takeWhile_digits dropWhile_digits)
  show ?thesis using assms(2,3) ninf
    by (simp add: parse_unsigned_def Let_def tw)
qed

lemma parse_unsigned_frac_exp_tail:
  assumes "list_all is_digit ip" "list_all is_digit fp" "ip \<noteq> []" "parse_exponent t = Some x"
  shows "parse_unsigned neg (ip @ CHR ''.'' # fp @ CHR ''e'' # t)
           = mk_finite neg (nat_of_digits (ip @ fp)) (x - int (length fp))"
proof -
  from assms have ninf: "ip @ CHR ''.'' # fp @ CHR ''e'' # t \<noteq> ''Infinity''"
    by (cases ip) (auto simp: is_digit_def)
  have tw: "takeWhile is_digit (ip @ CHR ''.'' # fp @ CHR ''e'' # t) = ip"
    "dropWhile is_digit (ip @ CHR ''.'' # fp @ CHR ''e'' # t) = CHR ''.'' # fp @ CHR ''e'' # t"
    using assms(1) by (simp_all add: takeWhile_digits dropWhile_digits)
  have tw2: "takeWhile is_digit (fp @ CHR ''e'' # t) = fp"
    "dropWhile is_digit (fp @ CHR ''e'' # t) = CHR ''e'' # t"
    using assms(2) by (simp_all add: takeWhile_digits dropWhile_digits)
  show ?thesis using assms(3,4) ninf
    by (simp add: parse_unsigned_def Let_def tw tw2)
qed

lemma parse_unsigned_exp:
  assumes "list_all is_digit ip" "ip \<noteq> []"
  shows "parse_unsigned neg (ip @ exponent_str x) = mk_finite neg (nat_of_digits ip) x"
  unfolding exponent_str_def
  by (rule parse_unsigned_exp_tail [OF assms parse_exponent_exponent])

lemma parse_unsigned_frac_exp:
  assumes "list_all is_digit ip" "list_all is_digit fp" "ip \<noteq> []"
  shows "parse_unsigned neg (ip @ CHR ''.'' # fp @ exponent_str x)
           = mk_finite neg (nat_of_digits (ip @ fp)) (x - int (length fp))"
  unfolding exponent_str_def
  by (rule parse_unsigned_frac_exp_tail [OF assms parse_exponent_exponent])

section \<open>Printing and re-parsing a number\<close>

lemma mk_finite_normal:
  "s \<noteq> 0 \<Longrightarrow> s mod 10 \<noteq> 0 \<Longrightarrow> mk_finite neg (s * 10 ^ j) e = Finite neg s (e + int j)"
  by (simp add: mk_finite_def strip10_pow)

lemma mk_finite_normal0:
  "s \<noteq> 0 \<Longrightarrow> s mod 10 \<noteq> 0 \<Longrightarrow> mk_finite neg s e = Finite neg s e"
  using mk_finite_normal [of s neg 0 e] by simp

lemma toString_digits_int:
  "int (length ds) \<le> n \<Longrightarrow> n \<le> 21
   \<Longrightarrow> toString_digits ds n = ds @ replicate (nat (n - int (length ds))) CHR ''0''"
  by (simp add: toString_digits_def Let_def)

lemma toString_digits_frac:
  "n < int (length ds) \<Longrightarrow> 0 < n \<Longrightarrow> n \<le> 21
   \<Longrightarrow> toString_digits ds n = take (nat n) ds @ CHR ''.'' # drop (nat n) ds"
  by (simp add: toString_digits_def Let_def)

lemma toString_digits_small:
  "- 6 < n \<Longrightarrow> n \<le> 0 \<Longrightarrow> ds \<noteq> []
   \<Longrightarrow> toString_digits ds n = ''0'' @ CHR ''.'' # (replicate (nat (- n)) CHR ''0'' @ ds)"
  by (cases ds) (simp_all add: toString_digits_def Let_def)

lemma toString_digits_exp1:
  "n \<le> - 6 \<or> 21 < n \<Longrightarrow> length ds = 1
   \<Longrightarrow> toString_digits ds n = ds @ exponent_str (n - 1)"
  by (auto simp: toString_digits_def Let_def)

lemma toString_digits_exp:
  "n \<le> - 6 \<or> 21 < n \<Longrightarrow> length ds \<noteq> 1
   \<Longrightarrow> toString_digits ds n = [hd ds] @ CHR ''.'' # tl ds @ exponent_str (n - 1)"
  by (auto simp: toString_digits_def Let_def)

lemma toString_digits_cases:
  fixes n :: int and k :: nat
  obtains (int) "int k \<le> n" "n \<le> 21"
    | (frac) "n < int k" "0 < n" "n \<le> 21"
    | (small) "- 6 < n" "n \<le> 0"
    | (exp1) "n \<le> - 6 \<or> 21 < n" "k = 1"
    | (exp) "n \<le> - 6 \<or> 21 < n" "k \<noteq> 1"
  by (cases "k = 1"; cases "n \<le> - 6"; cases "21 < n"; cases "0 < n"; cases "int k \<le> n")
     (auto; linarith)+

lemma parse_toString_digits:
  assumes s: "s \<noteq> 0" "s mod 10 \<noteq> 0"
  shows "parse_unsigned neg (toString_digits (digits_of s) (e + int (length (digits_of s))))
           = Finite neg s e"
proof -
  let ?D = "digits_of s"
  let ?k = "int (length ?D)"
  let ?n = "e + ?k"
  have D: "list_all is_digit ?D" "?D \<noteq> []" "nat_of_digits ?D = s"
    by (simp_all add: digits_of_digits digits_of_nonempty nat_of_digits_digits_of)
  show ?thesis
  proof (cases rule: toString_digits_cases [where n = ?n and k = "length ?D"])
    case int
    let ?z = "replicate (nat (?n - ?k)) CHR ''0''"
    have str: "toString_digits ?D ?n = ?D @ ?z"
      using int by (rule toString_digits_int)
    have "parse_unsigned neg (?D @ ?z) = mk_finite neg (nat_of_digits (?D @ ?z)) 0"
      by (rule parse_unsigned_int) (simp_all add: D zeros_digits)
    also have "nat_of_digits (?D @ ?z) = s * 10 ^ nat (?n - ?k)"
      by (simp add: nat_of_digits_append nat_of_digits_zeros D)
    also have "mk_finite neg (s * 10 ^ nat (?n - ?k)) 0 = Finite neg s e"
      using int s by (simp add: mk_finite_normal)
    finally show ?thesis unfolding str .
  next
    case frac
    let ?ip = "take (nat ?n) ?D" and ?fp = "drop (nat ?n) ?D"
    have str: "toString_digits ?D ?n = ?ip @ CHR ''.'' # ?fp"
      using frac by (rule toString_digits_frac)
    have ip: "?ip \<noteq> []" using frac D(2) by simp
    have dg: "list_all is_digit ?ip" "list_all is_digit ?fp"
      using D(1) by (auto simp: list_all_iff dest: in_set_takeD in_set_dropD)
    have "parse_unsigned neg (?ip @ CHR ''.'' # ?fp)
        = mk_finite neg (nat_of_digits (?ip @ ?fp)) (- int (length ?fp))"
      by (rule parse_unsigned_frac [OF dg ip])
    also have "\<dots> = mk_finite neg s e"
      using frac by (simp add: D)
    finally show ?thesis unfolding str using s by (simp add: mk_finite_normal0)
  next
    case small
    let ?z = "replicate (nat (- ?n)) CHR ''0''"
    have str: "toString_digits ?D ?n = ''0'' @ CHR ''.'' # (?z @ ?D)"
      using small D(2) by (rule toString_digits_small)
    have "parse_unsigned neg (''0'' @ CHR ''.'' # (?z @ ?D))
        = mk_finite neg (nat_of_digits (''0'' @ (?z @ ?D))) (- int (length (?z @ ?D)))"
      by (rule parse_unsigned_frac) (simp_all add: D zeros_digits is_digit_def)
    also have "nat_of_digits (''0'' @ (?z @ ?D)) = s"
    proof -
      have "nat_of_digits (''0'' @ (?z @ ?D))
          = nat_of_digits ''0'' * 10 ^ length (?z @ ?D) + nat_of_digits (?z @ ?D)"
        by (rule nat_of_digits_append)
      moreover have "nat_of_digits ''0'' = 0"
        by (simp add: nat_of_digits_def digit_val_def)
      moreover have "nat_of_digits (?z @ ?D) = s"
        by (simp add: nat_of_digits_append nat_of_digits_zeros D)
      ultimately show ?thesis by (simp only: mult_0 add_0)
    qed
    also have "- int (length (?z @ ?D)) = e"
      using small by simp
    finally show ?thesis unfolding str using s by (simp add: mk_finite_normal0)
  next
    case exp1
    have str: "toString_digits ?D ?n = ?D @ exponent_str (?n - 1)"
      using exp1 by (rule toString_digits_exp1)
    have "parse_unsigned neg (?D @ exponent_str (?n - 1)) = mk_finite neg (nat_of_digits ?D) (?n - 1)"
      by (rule parse_unsigned_exp) (simp_all add: D)
    also have "\<dots> = mk_finite neg s e"
      using exp1 by (simp add: D)
    finally show ?thesis unfolding str using s by (simp add: mk_finite_normal0)
  next
    case exp
    have str: "toString_digits ?D ?n = [hd ?D] @ CHR ''.'' # tl ?D @ exponent_str (?n - 1)"
      using exp by (rule toString_digits_exp)
    have hdtl: "[hd ?D] @ tl ?D = ?D" using D(2) by simp
    have dg: "list_all is_digit [hd ?D]" "list_all is_digit (tl ?D)"
      using D(1,2) by (cases ?D; simp)+
    have "parse_unsigned neg ([hd ?D] @ CHR ''.'' # tl ?D @ exponent_str (?n - 1))
        = mk_finite neg (nat_of_digits ([hd ?D] @ tl ?D)) (?n - 1 - int (length (tl ?D)))"
      by (rule parse_unsigned_frac_exp [OF dg]) simp
    also have "\<dots> = mk_finite neg s e"
    proof -
      have "1 \<le> length ?D" using D(2) by (cases ?D) simp_all
      then have "?n - 1 - int (length (tl ?D)) = e" by simp
      then show ?thesis unfolding hdtl by (simp only: D(3))
    qed
    finally show ?thesis unfolding str using s by (simp add: mk_finite_normal0)
  qed
qed

lemma toString_digits_head:
  assumes "list_all is_digit ds" "ds \<noteq> []"
  shows "toString_digits ds n \<noteq> [] \<and> is_digit (hd (toString_digits ds n))"
  using assms
  by (cases ds) (auto simp: toString_digits_def Let_def is_digit_def [of "CHR ''0''"])

lemma Number_unsigned:
  "s \<noteq> [] \<Longrightarrow> is_digit (hd s) \<Longrightarrow> Number s = parse_unsigned False s"
  by (cases s) (auto simp: Number_def)

lemma Number_toString: "Number (toString v) = canonical v"
proof (cases v)
  case NaN
  then show ?thesis by (simp add: eval_defs)
next
  case (Infinity neg)
  then show ?thesis by (cases neg) (simp_all add: eval_defs)
next
  case (Finite neg m e)
  show ?thesis
  proof (cases "m = 0")
    case True
    with Finite show ?thesis by (simp add: eval_defs)
  next
    case False
    obtain s e' where se: "strip10 m e = (s, e')" by (cases "strip10 m e")
    from strip10_normal [OF False se] have s: "s \<noteq> 0" "s mod 10 \<noteq> 0" by simp_all
    let ?B = "toString_digits (digits_of s) (e' + int (length (digits_of s)))"
    have B: "?B \<noteq> []" "is_digit (hd ?B)"
      using toString_digits_head [OF digits_of_digits digits_of_nonempty] by simp_all
    have p: "parse_unsigned b ?B = Finite b s e'" for b
      by (rule parse_toString_digits [OF s])
    have "Number (toString v) = Finite neg s e'"
    proof (cases neg)
      case True
      with Finite False se show ?thesis by (simp add: Number_def p)
    next
      case False
      with Finite \<open>m \<noteq> 0\<close> se show ?thesis by (simp add: Number_unsigned [OF B] p)
    qed
    with Finite False se show ?thesis by simp
  qed
qed

lemma toString_canonical: "toString (canonical v) = toString v"
proof (cases v)
  case (Finite neg m e)
  show ?thesis
  proof (cases "m = 0")
    case True
    with Finite show ?thesis by simp
  next
    case False
    obtain s e' where se: "strip10 m e = (s, e')" by (cases "strip10 m e")
    from strip10_normal [OF False se] have s: "s \<noteq> 0" "s mod 10 \<noteq> 0" by simp_all
    then have "strip10 s e' = (s, e')" by (simp add: strip10_fixed)
    with Finite False se s show ?thesis by simp
  qed
qed simp_all

lemma js_lt_canonical: "js_lt (canonical v) t = js_lt v t"
proof (cases v)
  case (Finite neg m e)
  show ?thesis
  proof (cases "m = 0")
    case True
    with Finite show ?thesis by (simp add: dec_frac_def)
  next
    case False
    obtain s e' where se: "strip10 m e = (s, e')" by (cases "strip10 m e")
    from strip10_normal [OF False se] have s: "s \<noteq> 0" by simp
    with Finite False se strip10_frac_lt [OF se, of t] show ?thesis by simp
  qed
qed simp_all

section \<open>Values below 1000\<close>

lemma sanitize_plain:
  assumes "list_all (\<lambda>c. is_digit c \<or> c = CHR ''.'') (toString v)"
  shows "sanitize v = canonical v"
proof -
  have "filter (\<lambda>c. is_digit c \<or> c = CHR ''.'') (toString v) = toString v"
    using assms by (simp add: list_all_iff)
  then show ?thesis by (simp add: sanitize_def Number_toString)
qed

text \<open>
  Claim C3 says that every input below 1000 is returned as its own plain string. A negative
  input is below 1000 and loses its sign in the sanitization: \<open>-5\<close> gives \<open>5\<close>.
\<close>

theorem numify_negative_not_plain:
  "js_lt (Finite True 5 0) 1000
   \<and> toString (Finite True 5 0) = ''-5''
   \<and> numify (Finite True 5 0) \<lparr>formatType = None, precise = None, style = None\<rparr> = ''5''
   \<and> numify (Finite True 5 0) \<lparr>formatType = None, precise = None, style = None\<rparr>
       \<noteq> toString (Finite True 5 0)"
  by (simp add: eval_defs)

text \<open>
  Claim C3, amended. Every input below 1000 whose decimal string consists of digits and a
  dot only (the input is not negative and is printed without an exponent) is returned as
  that string, without suffix and without grouping.
\<close>

theorem numify_below_1000_plain:
  assumes "js_lt v 1000"
    and "list_all (\<lambda>c. is_digit c \<or> c = CHR ''.'') (toString v)"
  shows "numify v \<lparr>formatType = None, precise = None, style = None\<rparr> = toString v"
proof -
  have s: "sanitize v = canonical v"
    using assms(2) by (rule sanitize_plain)
  then have "js_lt (sanitize v) 1000"
    using assms(1) by (simp add: js_lt_canonical)
  then show ?thesis
    by (simp add: numify_small s toString_canonical)
qed

theorem numify_below_1000_plain_witness:
  "js_lt (Finite False 9995 (- 1)) 1000
   \<and> list_all (\<lambda>c. is_digit c \<or> c = CHR ''.'') (toString (Finite False 9995 (- 1)))
   \<and> numify (Finite False 9995 (- 1)) \<lparr>formatType = None, precise = None, style = None\<rparr>
       = toString (Finite False 9995 (- 1))"
proof -
  have h1: "js_lt (Finite False 9995 (- 1)) 1000"
    by (simp add: eval_defs)
  have h2: "list_all (\<lambda>c. is_digit c \<or> c = CHR ''.'') (toString (Finite False 9995 (- 1)))"
    by (simp add: eval_defs)
  show ?thesis
    by (intro conjI h1 h2 numify_below_1000_plain [OF h1 h2])
qed

section \<open>Grouping digits\<close>

lemma group_left_short: "length ds \<le> 3 \<Longrightarrow> group_left sep ds = ds"
proof (induction ds)
  case Nil
  then show ?case by simp
next
  case (Cons d ds)
  then have l: "length ds \<le> 2" by simp
  then have "length ds mod 3 = 0 \<longrightarrow> length ds = 0" by presburger
  then have "\<not> (ds \<noteq> [] \<and> length ds mod 3 = 0)" by auto
  moreover have "group_left sep ds = ds" using Cons.IH l by simp
  ultimately show ?case by auto
qed

lemma group_left_append3:
  assumes "ds \<noteq> []" "length t = 3"
  shows "group_left sep (ds @ t) = group_left sep ds @ sep @ t"
  using assms(1)
proof (induction ds)
  case Nil
  then show ?case by simp
next
  case (Cons d ds)
  show ?case
  proof (cases "ds = []")
    case True
    moreover from assms(2) have "t \<noteq> []" by auto
    ultimately show ?thesis using assms(2) by (simp add: group_left_short)
  next
    case False
    with Cons.IH have "group_left sep (ds @ t) = group_left sep ds @ sep @ t" by simp
    then show ?thesis using False assms(2) by simp
  qed
qed



lemma group_left_group3: "group_left sep ds = group3 sep ds"
proof (induction sep ds rule: group3.induct)
  case (1 sep ds)
  show ?case
  proof (cases "length ds \<le> 3")
    case True
    then show ?thesis by (subst group3.simps) (simp add: group_left_short)
  next
    case False
    let ?a = "take (length ds - 3) ds" and ?b = "drop (length ds - 3) ds"
    have ds: "ds = ?a @ ?b" by simp
    have a: "?a \<noteq> []" and b: "length ?b = 3" using False by auto
    have "group_left sep ds = group_left sep (?a @ ?b)" by simp
    also have "\<dots> = group_left sep ?a @ sep @ ?b"
      by (rule group_left_append3 [OF a b])
    also have "group_left sep ?a = group3 sep ?a"
      using 1 False by simp
    finally show ?thesis using False by (subst group3.simps) simp
  qed
qed




lemma lookahead3_digits:
  assumes "list_all is_digit ds" "t = [] \<or> \<not> is_digit (hd t)"
  shows "lookahead3 (ds @ t) \<longleftrightarrow> ds \<noteq> [] \<and> length ds mod 3 = 0"
  by (simp add: lookahead3_def takeWhile_digits [OF assms])

lemma group_from_digits:
  assumes "list_all is_digit ds" "t = [] \<or> \<not> is_digit (hd t)"
  shows "group_from prev sep (ds @ t) =
           (if (case prev of None \<Rightarrow> False | Some b \<Rightarrow> is_word b) \<and> ds \<noteq> []
               \<and> length ds mod 3 = 0 then sep else [])
           @ group_left sep ds
           @ group_from (if ds = [] then prev else Some (last ds)) sep t"
  using assms(1)
proof (induction ds arbitrary: prev)
  case Nil
  then show ?case by simp
next
  case (Cons d ds)
  then have d: "is_digit d" and ds: "list_all is_digit ds" by simp_all
  have w: "is_word d" using d by (rule is_digit_is_word)
  have la: "lookahead3 ((d # ds) @ t) \<longleftrightarrow> length (d # ds) mod 3 = 0"
    using lookahead3_digits [OF Cons.prems assms(2)] by simp
  have ih: "group_from (Some d) sep (ds @ t) =
      (if ds \<noteq> [] \<and> length ds mod 3 = 0 then sep else [])
      @ group_left sep ds @ group_from (if ds = [] then Some d else Some (last ds)) sep t"
    using Cons.IH [OF ds, of "Some d"] w by simp
  have "group_from prev sep ((d # ds) @ t) =
      (if non_word_boundary prev d \<and> lookahead3 ((d # ds) @ t) then sep else [])
      @ d # group_from (Some d) sep (ds @ t)"
    by simp
  also have "non_word_boundary prev d \<longleftrightarrow> (case prev of None \<Rightarrow> False | Some b \<Rightarrow> is_word b)"
    using w by (simp add: non_word_boundary_def)
  finally show ?case
    unfolding la ih by simp
qed

section \<open>formatNumber on the decimal string\<close>

lemma formatNumber_format_string:
  "formatNumber v options = format_string (fn_format_of options) (toString v)"
  by (simp add: formatNumber_def format_string_def fn_format_of_def Let_def)

lemma split_on_absent: "c \<notin> set a \<Longrightarrow> split_on c a = [a]"
  by (induction a) auto

lemma split_on_first: "c \<notin> set a \<Longrightarrow> split_on c (a @ c # b) = a # split_on c b"
  by (induction a) auto

lemma format_string_nodot:
  "CHR ''.'' \<notin> set a \<Longrightarrow> format_string format a = group_from None (thousand format) a"
  by (simp add: format_string_def split_on_absent)

lemma format_string_dot:
  assumes "CHR ''.'' \<notin> set a" "CHR ''.'' \<notin> set b"
  shows "format_string format (a @ CHR ''.'' # b)
           = group_from None (thousand format) a @ decimal format @ b"
  using assms by (simp add: format_string_def split_on_first split_on_absent)

lemma group_from_signed:
  assumes "sg = [] \<or> sg = ''-''" "list_all is_digit ds" "t = [] \<or> \<not> is_digit (hd t)"
  shows "group_from None sep (sg @ ds @ t) =
           sg @ group3 sep ds
           @ group_from (if ds = [] then (if sg = [] then None else Some CHR ''-'')
                         else Some (last ds)) sep t"
proof -
  have nw: "\<not> is_word CHR ''-''" by (simp add: is_word_def)
  have la: "\<not> lookahead3 (CHR ''-'' # r)" for r by (simp add: lookahead3_def)
  from assms(1) show ?thesis
  proof
    assume "sg = []"
    then show ?thesis
      using group_from_digits [OF assms(2,3), of None sep]
      by (simp add: group_left_group3)
  next
    assume "sg = ''-''"
    then show ?thesis
      using group_from_digits [OF assms(2,3), of "Some CHR ''-''" sep] nw la
      by (simp add: group_left_group3)
  qed
qed

lemma digits_of_length_lt1000: "n < 1000 \<Longrightarrow> length (digits_of n) \<le> 3"
proof -
  assume n: "n < 1000"
  consider "n < 10" | "10 \<le> n" "n < 100" | "100 \<le> n" by linarith
  then show ?thesis
  proof cases
    case 1
    then show ?thesis by (simp add: digits_of_small)
  next
    case 2
    then have "n div 10 < 10" by simp
    with 2 show ?thesis by (simp add: digits_of_large [of n] digits_of_small)
  next
    case 3
    with n have "n div 10 div 10 < 10" "10 \<le> n div 10" "10 \<le> n" by simp_all
    then show ?thesis
      by (simp add: digits_of_large [of n] digits_of_large [of "n div 10"] digits_of_small)
  qed
qed

lemma group_from_exponent_str:
  assumes "\<bar>x\<bar> < 1000"
  shows "group_from prev sep (exponent_str x) = exponent_str x"
proof -
  let ?c = "if 0 \<le> x then CHR ''+'' else CHR ''-''"
  let ?xs = "digits_of (nat \<bar>x\<bar>)"
  have nw: "\<not> is_word ?c" by (simp add: is_word_def)
  have la: "\<not> lookahead3 (CHR ''e'' # r)" "\<not> lookahead3 (?c # r)" for r
    by (simp_all add: lookahead3_def)
  have len: "length ?xs \<le> 3"
    using assms by (intro digits_of_length_lt1000) simp
  have "group_from (Some ?c) sep (?xs @ []) = group_left sep ?xs"
    using group_from_digits [where ds = ?xs and t = "[]" and prev = "Some ?c" and sep = sep] nw
    by (simp add: digits_of_digits)
  then have xs: "group_from (Some ?c) sep ?xs = ?xs"
    using len by (simp add: group_left_short)
  have "group_from prev sep (CHR ''e'' # ?c # ?xs) = CHR ''e'' # ?c # group_from (Some ?c) sep ?xs"
    using la by simp
  then show ?thesis
    unfolding exponent_str_def xs .
qed

end
